theory Spec2Isabelle
  imports Complex_Main "HOL-Library.Char_ord" "HOL-Library.List_Lexorder"
begin

section \<open>Python values used by raster\_tile.py\<close>

text \<open>
  The exceptions the run can meet. Every one of them is a subclass of Python's
  \<open>Exception\<close>, so the handler at the end of \<open>tile_raster_with_overlap\<close> catches it.
\<close>

datatype exn = FileNotFoundError | OSError | ValueError | RasterioIOError

text \<open>
  Python's \<open>range(start, stop, step)\<close> on unbounded integers. A zero step raises
  \<open>ValueError\<close>. Otherwise the range has \<open>get_len_of_range\<close> many items and item \<open>i\<close>
  is \<open>start + i * step\<close>; a negative step counts downwards.
\<close>

definition get_len_of_range :: "int \<Rightarrow> int \<Rightarrow> int \<Rightarrow> nat" where
  "get_len_of_range lo hi step = (if lo < hi then nat ((hi - lo - 1) div step + 1) else 0)"

definition py_range :: "int \<Rightarrow> int \<Rightarrow> int \<Rightarrow> exn + int list" where
  "py_range start stop step =
     (if step = 0 then Inl ValueError
      else Inr (map (\<lambda>i. start + int i * step)
                  [0 ..< (if 0 < step then get_len_of_range start stop step
                          else get_len_of_range stop start (- step))]))"

section \<open>The tile grid\<close>

text \<open>A grid entry is the tuple \<open>(y_off, x_off, width, height)\<close> the source appends.\<close>

type_synonym window = "int \<times> int \<times> int \<times> int"

text \<open>
  The body of the two nested loops for the nominal origin \<open>(y, x)\<close>; \<open>height\<close> and
  \<open>width\<close> are \<open>src.height\<close> and \<open>src.width\<close>.
\<close>

definition tile_window :: "int \<Rightarrow> int \<Rightarrow> int \<Rightarrow> int \<Rightarrow> int \<Rightarrow> int \<Rightarrow> window" where
  "tile_window height width tile_size overlap y x =
     (let x_off = max 0 (if 0 < x then x - overlap else 0);
          y_off = max 0 (if 0 < y then y - overlap else 0);
          w = min (tile_size + (if 0 < x then overlap else 0)) (width - x_off);
          h = min (tile_size + (if 0 < y then overlap else 0)) (height - y_off)
      in (y_off, x_off, w, h))"

text \<open>
  The outer loop over the rows. The inner \<open>range\<close> is built afresh for every \<open>y\<close>;
  each row appends its windows from left to right.
\<close>

fun grid_rows :: "int \<Rightarrow> int \<Rightarrow> int \<Rightarrow> int \<Rightarrow> int list \<Rightarrow> exn + window list" where
  "grid_rows height width tile_size overlap [] = Inr []"
| "grid_rows height width tile_size overlap (y # ys) =
     (case py_range 0 width (tile_size - overlap) of
        Inl e \<Rightarrow> Inl e
      | Inr xs \<Rightarrow>
          (case grid_rows height width tile_size overlap ys of
             Inl e \<Rightarrow> Inl e
           | Inr rest \<Rightarrow> Inr (map (tile_window height width tile_size overlap y) xs @ rest)))"

definition tile_grid :: "int \<Rightarrow> int \<Rightarrow> int \<Rightarrow> int \<Rightarrow> exn + window list" where
  "tile_grid height width tile_size overlap =
     (case py_range 0 height (tile_size - overlap) of
        Inl e \<Rightarrow> Inl e
      | Inr ys \<Rightarrow> grid_rows height width tile_size overlap ys)"

text \<open>
  The nominal origins along one axis of extent \<open>n\<close> for a positive stride \<open>s\<close>:
  what \<open>range(0, n, s)\<close> yields.
\<close>

definition origins :: "int \<Rightarrow> int \<Rightarrow> int list" where
  "origins n s = map (\<lambda>i. int i * s) [0 ..< get_len_of_range 0 n s]"


section \<open>Pixel rectangles\<close>

text \<open>
  The pixel rows and columns a window addresses, and its rectangle as a set of
  \<open>(row, column)\<close> pairs.
\<close>

definition rows :: "window \<Rightarrow> int set" where
  "rows win = (case win of (y_off, x_off, w, h) \<Rightarrow> {y_off ..< y_off + h})"

definition cols :: "window \<Rightarrow> int set" where
  "cols win = (case win of (y_off, x_off, w, h) \<Rightarrow> {x_off ..< x_off + w})"

definition rect :: "window \<Rightarrow> (int \<times> int) set" where
  "rect win = rows win \<times> cols win"

section \<open>Tile file names\<close>

text \<open>
  Python's \<open>str\<close> of a non-negative integer, and the format \<open>{v:04d}\<close>: the sign, then
  zeros up to a total width of four characters, then the decimal digits. A number with
  more than four characters is printed in full.
\<close>

definition digit_char :: "nat \<Rightarrow> char" where
  "digit_char d = char_of (48 + d)"

fun str_nat :: "nat \<Rightarrow> string" where
  "str_nat n = (if n < 10 then [digit_char n] else str_nat (n div 10) @ [digit_char (n mod 10)])"

declare str_nat.simps [simp del]

definition format_04d :: "int \<Rightarrow> string" where
  "format_04d v =
     (let sign = (if v < 0 then ''-'' else '''');
          digits = str_nat (nat \<bar>v\<bar>)
      in sign @ replicate (4 - (length sign + length digits)) CHR ''0'' @ digits)"


text \<open>
  The name of the tile written for a grid entry, \<open>f"tile_{y:04d}_{x:04d}.tif"\<close>, where
  the loop variables \<open>y\<close> and \<open>x\<close> are the entry's row and column offsets.
\<close>

definition tile_name :: "window \<Rightarrow> string" where
  "tile_name win = (case win of (y, x, width, height) \<Rightarrow>
     ''tile_'' @ format_04d y @ ''_'' @ format_04d x @ ''.tif'')"

section \<open>One run of \<open>tile_raster_with_overlap\<close>\<close>

text \<open>
  The outside world of one run: whether the input file exists, whether the directories
  can be made, what opening the raster gives (\<open>None\<close> when it raises, else
  \<open>(src.height, src.width)\<close>), and for which windows reading the block and writing its
  files succeeds.

  A path is the list of its parts below the anchor, as \<open>pathlib\<close> keeps it, and
  \<open>p / name\<close> appends one part. \<open>output_dir\<close> stands for the stripped, absolute
  output directory.
\<close>

type_synonym path = "string list"

record world =
  input_exists :: bool
  mkdir_ok :: bool
  mkdtemp_ok :: bool
  raster :: "(int \<times> int) option"
  tile_ok :: "window \<Rightarrow> bool"

text \<open>
  What the caller observes at the end: the success report with the total number of tiles,
  or the reported error followed by \<open>sys.exit(1)\<close>. The scratch directory is removed on
  both paths and leaves nothing behind.
\<close>

datatype outcome = Success nat | Exit1 exn

definition validate_and_prepare_paths :: "world \<Rightarrow> path \<Rightarrow> exn + path" where
  "validate_and_prepare_paths wd output_dir =
     (if \<not> input_exists wd then Inl FileNotFoundError
      else if \<not> mkdir_ok wd then Inl OSError
      else Inr (output_dir @ [''tiles'']))"

text \<open>
  The second loop: one read and one write per grid entry, in grid order. The first
  failure stops the loop; the files written before it stay.
\<close>

fun save_tiles :: "world \<Rightarrow> path \<Rightarrow> window list \<Rightarrow> path list \<Rightarrow> path list \<times> exn option" where
  "save_tiles wd tiles_dir [] written = (written, None)"
| "save_tiles wd tiles_dir (win # wins) written =
     (if tile_ok wd win
      then save_tiles wd tiles_dir wins (written @ [tiles_dir @ [tile_name win]])
      else (written, Some RasterioIOError))"

text \<open>The run: the tile files written, in order, and the outcome.\<close>

definition tile_raster_with_overlap :: "world \<Rightarrow> path \<Rightarrow> int \<Rightarrow> int \<Rightarrow> path list \<times> outcome" where
  "tile_raster_with_overlap wd output_dir tile_size overlap =
     (case validate_and_prepare_paths wd output_dir of
        Inl e \<Rightarrow> ([], Exit1 e)
      | Inr tiles_dir \<Rightarrow>
          if \<not> mkdtemp_ok wd then ([], Exit1 OSError)
          else (case raster wd of
                  None \<Rightarrow> ([], Exit1 RasterioIOError)
                | Some (height, width) \<Rightarrow>
                    (case tile_grid height width tile_size overlap of
                       Inl e \<Rightarrow> ([], Exit1 e)
                     | Inr grid \<Rightarrow>
                         (case save_tiles wd tiles_dir grid [] of
                            (written, Some e) \<Rightarrow> (written, Exit1 e)
                          | (written, None) \<Rightarrow> (written, Success (length grid))))))"

text \<open>A world in which every external call succeeds, for a raster of the given size.\<close>

definition healthy_world :: "int \<Rightarrow> int \<Rightarrow> world" where
  "healthy_world height width =
     \<lparr>input_exists = True, mkdir_ok = True, mkdtemp_ok = True,
      raster = Some (height, width), tile_ok = (\<lambda>win. True)\<rparr>"

section \<open>Facts about \<open>range\<close> and the shape of the grid\<close>

lemma py_range_origins: "0 < s \<Longrightarrow> py_range 0 n s = Inr (origins n s)"
  by (simp add: py_range_def origins_def)

lemma py_range_zero_step: "py_range a b 0 = Inl ValueError"
  by (simp add: py_range_def)

lemma py_range_neg_step: "s < 0 \<Longrightarrow> 0 \<le> n \<Longrightarrow> py_range 0 n s = Inr []"
  by (simp add: py_range_def get_len_of_range_def)

lemma length_origins: "0 < s \<Longrightarrow> 0 < n \<Longrightarrow> length (origins n s) = nat ((n - 1) div s + 1)"
  by (simp add: origins_def get_len_of_range_def)

lemma origins_mem:
  assumes "0 < s"
  shows "x \<in> set (origins n s) \<longleftrightarrow> 0 \<le> x \<and> x < n \<and> s dvd x"
proof
  assume "x \<in> set (origins n s)"
  then obtain i where i: "i < get_len_of_range 0 n s" "x = int i * s"
    by (auto simp: origins_def)
  from i(1) have n: "0 < n" and "int i < (n - 1) div s + 1"
    by (auto simp: get_len_of_range_def split: if_splits)
  then have "int i \<le> (n - 1) div s" by simp
  then have "int i * s \<le> (n - 1) div s * s" using assms by (simp add: mult_right_mono)
  also have "\<dots> \<le> n - 1"
  proof -
    have "(n - 1) div s * s + (n - 1) mod s = n - 1" by simp
    moreover have "0 \<le> (n - 1) mod s" using assms by simp
    ultimately show ?thesis by linarith
  qed
  finally show "0 \<le> x \<and> x < n \<and> s dvd x" using i(2) assms by simp
next
  assume a: "0 \<le> x \<and> x < n \<and> s dvd x"
  then obtain k where k: "x = s * k" by (auto simp: dvd_def)
  with a assms have k0: "0 \<le> k" by (simp add: zero_le_mult_iff)
  have "x \<le> n - 1" using a by simp
  then have "x div s \<le> (n - 1) div s" using assms by (simp add: zdiv_mono1)
  then have "k \<le> (n - 1) div s" using k assms by simp
  then have "nat k < get_len_of_range 0 n s" using a k0 by (simp add: get_len_of_range_def)
  moreover have "x = int (nat k) * s" using k k0 by simp
  ultimately have "x \<in> (\<lambda>i. int i * s) ` {0 ..< get_len_of_range 0 n s}"
    by (intro image_eqI [where x = "nat k"]) simp_all
  then show "x \<in> set (origins n s)" by (simp add: origins_def)
qed

lemma grid_rows_concat:
  "0 < t - ov \<Longrightarrow> grid_rows H W t ov ys =
     Inr (concat (map (\<lambda>y. map (tile_window H W t ov y) (origins W (t - ov))) ys))"
  by (induction ys) (simp_all add: py_range_origins)

lemma tile_grid_concat:
  "ov < t \<Longrightarrow> tile_grid H W t ov =
     Inr (concat (map (\<lambda>y. map (tile_window H W t ov y) (origins W (t - ov))) (origins H (t - ov))))"
  by (simp add: tile_grid_def py_range_origins grid_rows_concat)

lemma length_concat_rows: "length (concat (map (\<lambda>y. map (f y) xs) ys)) = length ys * length xs"
  by (induction ys) simp_all

lemma set_concat_rows: "set (concat (map (\<lambda>y. map (f y) xs) ys)) = {f y x | y x. y \<in> set ys \<and> x \<in> set xs}"
  by auto

lemma ceil_div: "0 < s \<Longrightarrow> (n - 1) div s + 1 = \<lceil>real_of_int n / real_of_int s\<rceil>" for n s :: int
proof -
  assume s: "0 < s"
  define q where "q = (n - 1) div s"
  define r where "r = (n - 1) mod s"
  have e: "n - 1 = s * q + r" by (simp add: q_def r_def)
  have r: "0 \<le> r" "r < s" using s by (simp_all add: r_def)
  have "- n = s * (- (q + 1)) + (s - 1 - r)" using e by (simp add: algebra_simps)
  moreover have "0 \<le> s - 1 - r" "s - 1 - r < s" using r by simp_all
  ultimately have "(- n) div s = - (q + 1)"
    by (rule int_div_pos_eq)
  then show ?thesis by (simp add: ceiling_divide_eq_div q_def)
qed

lemma set_tile_grid:
  "ov < t \<Longrightarrow> tile_grid H W t ov = Inr ws \<Longrightarrow>
   set ws = {tile_window H W t ov y x | y x. y \<in> set (origins H (t - ov)) \<and> x \<in> set (origins W (t - ov))}"
proof -
  assume "ov < t" "tile_grid H W t ov = Inr ws"
  then have "ws = concat (map (\<lambda>y. map (tile_window H W t ov y) (origins W (t - ov))) (origins H (t - ov)))"
    by (simp add: tile_grid_concat)
  then show ?thesis by (simp only: set_concat_rows)
qed

lemma tile_window_valid:
  assumes "0 < t" "0 \<le> ov" "0 \<le> y" "y < H" "0 \<le> x" "x < W"
    and "tile_window H W t ov y x = (y_off, x_off, w, h)"
  shows "0 < w \<and> 0 < h \<and> 0 \<le> y_off \<and> 0 \<le> x_off \<and> y_off + h \<le> H \<and> x_off + w \<le> W"
  using assms by (auto simp: tile_window_def Let_def split: if_splits)

lemma tile_window_covers:
  assumes "0 < t" "0 \<le> ov" "ov < t" "0 \<le> y" "y \<le> r" "r < y + (t - ov)" "r < H"
    "0 \<le> x" "x \<le> c" "c < x + (t - ov)" "c < W"
  shows "(r, c) \<in> rect (tile_window H W t ov y x)"
  using assms by (auto simp: rect_def rows_def cols_def tile_window_def Let_def)

lemma origin_below:
  assumes "0 < s" "0 \<le> r" "r < n"
  shows "r div s * s \<in> set (origins n s)" "r div s * s \<le> r" "r < r div s * s + s"
proof -
  have e: "r div s * s + r mod s = r" by simp
  have m: "0 \<le> r mod s" "r mod s < s" using assms by simp_all
  show le: "r div s * s \<le> r" using e m by linarith
  show "r < r div s * s + s" using e m by linarith
  have "0 \<le> r div s" using assms by (simp add: pos_imp_zdiv_nonneg_iff)
  then have "0 \<le> r div s * s" using assms by simp
  then show "r div s * s \<in> set (origins n s)" using assms le by (simp add: origins_mem)
qed

lemma small_grid:
  "tile_grid 3 5 3 1 =
     Inr [(0, 0, 3, 3), (0, 1, 4, 3), (0, 3, 2, 3), (1, 0, 3, 2), (1, 1, 4, 2), (1, 3, 2, 2)]"
  by code_simp

lemma nth_concat_rows:
  "i < length ys \<Longrightarrow> j < length xs \<Longrightarrow>
   concat (map (\<lambda>y. map (f y) xs) ys) ! (i * length xs + j) = f (ys ! i) (xs ! j)"
proof (induction ys arbitrary: i)
  case Nil
  then show ?case by simp
next
  case (Cons y ys)
  show ?case
  proof (cases i)
    case 0
    with Cons.prems show ?thesis by (simp add: nth_append)
  next
    case (Suc k)
    with Cons.prems have "k < length ys" by simp
    from Cons.IH [OF this Cons.prems(2)] Suc show ?thesis by (simp add: nth_append)
  qed
qed

lemma grid_nth:
  assumes "ov < t" "tile_grid H W t ov = Inr ws"
    and "i < length (origins H (t - ov))" "j < length (origins W (t - ov))"
  shows "ws ! (i * length (origins W (t - ov)) + j) =
           tile_window H W t ov (origins H (t - ov) ! i) (origins W (t - ov) ! j)"
proof -
  have "ws = concat (map (\<lambda>y. map (tile_window H W t ov y) (origins W (t - ov))) (origins H (t - ov)))"
    using assms(1,2) by (simp add: tile_grid_concat)
  then show ?thesis using assms(3,4) by (simp only: nth_concat_rows)
qed

lemma origins_nth_mem: "j < length (origins n s) \<Longrightarrow> origins n s ! j \<in> set (origins n s)"
  by simp

lemma origin_zero_or_stride:
  assumes "0 < s" "x \<in> set (origins n s)"
  shows "x = 0 \<or> s \<le> x"
proof -
  from assms have "0 \<le> x" "s dvd x" by (simp_all add: origins_mem)
  then show ?thesis using assms(1) by (auto dest: zdvd_imp_le)
qed

lemma origins_succ: "Suc j < length (origins n s) \<Longrightarrow> origins n s ! Suc j = origins n s ! j + s"
  by (simp add: origins_def algebra_simps)

lemma card_common: "int (card ({a ..< a + m} \<inter> {b ..< b + n})) = max 0 (min (a + m) (b + n) - max a b)" for a b m n :: int
proof -
  have "{a ..< a + m} \<inter> {b ..< b + n} = {max a b ..< min (a + m) (b + n)}" by auto
  moreover have "int (card {l ..< u}) = max 0 (u - l)" for l u :: int by simp
  ultimately show ?thesis by (simp only:)
qed

lemma clamp_overlap:
  "a + p - a' \<le> c \<Longrightarrow> 0 \<le> c \<Longrightarrow> max 0 (min (a + min p q) B - max a a') \<le> c" for a p q c :: int
  by linarith

lemma shift_arith:
  fixes t ov x :: int
  assumes "0 < t" "0 \<le> ov" "ov < t" "x = 0 \<or> t - ov \<le> x"
  shows "max 0 (if 0 < x then x - ov else 0) + (t + (if 0 < x then ov else 0))
           - max 0 (if 0 < x + (t - ov) then x + (t - ov) - ov else 0)
         \<le> 2 * ov + max 0 (2 * ov - t)"
  using assms by (cases "x = 0") (simp_all add: max_def)

lemma overlap_arith:
  fixes t ov x W :: int
  assumes "0 < t" "0 \<le> ov" "ov < t" "x = 0 \<or> t - ov \<le> x"
  shows "max 0 (min (max 0 (if 0 < x then x - ov else 0) + min (t + (if 0 < x then ov else 0)) (W - max 0 (if 0 < x then x - ov else 0)))
                    (max 0 (if 0 < x + (t - ov) then x + (t - ov) - ov else 0) + min (t + (if 0 < x + (t - ov) then ov else 0)) (W - max 0 (if 0 < x + (t - ov) then x + (t - ov) - ov else 0)))
                - max (max 0 (if 0 < x then x - ov else 0)) (max 0 (if 0 < x + (t - ov) then x + (t - ov) - ov else 0)))
         \<le> 2 * ov + max 0 (2 * ov - t)"
proof (rule clamp_overlap)
  show "max 0 (if 0 < x then x - ov else 0) + (t + (if 0 < x then ov else 0))
           - max 0 (if 0 < x + (t - ov) then x + (t - ov) - ov else 0)
         \<le> 2 * ov + max 0 (2 * ov - t)"
    by (rule shift_arith [OF assms])
  show "0 \<le> 2 * ov + max 0 (2 * ov - t)" using assms by simp
qed

lemma card_ivl_inter:
  "card ({a ..< b} \<inter> {c ..< d}) = nat (min b d - max a c)" for a b c d :: int
proof -
  have "{a ..< b} \<inter> {c ..< d} = {max a c ..< min b d}" by auto
  moreover have "card {l ..< u} = nat (u - l)" for l u :: int by simp
  ultimately show ?thesis by (simp only:)
qed

lemma grid_4000:
  "tile_grid 4000 4000 2000 20 =
     Inr [(0, 0, 2000, 2000), (0, 1960, 2020, 2000), (0, 3940, 60, 2000),
          (1960, 0, 2000, 2020), (1960, 1960, 2020, 2020), (1960, 3940, 60, 2020),
          (3940, 0, 2000, 60), (3940, 1960, 2020, 60), (3940, 3940, 60, 60)]"
  by code_simp

lemma range_4000: "py_range 0 4000 1980 = Inr [0, 1980, 3960]"
  by code_simp

lemma origins_nth: "j < length (origins n s) \<Longrightarrow> origins n s ! j = int j * s"
  by (simp add: origins_def)

lemma grid_nth_flat:
  assumes "ov < t" "tile_grid H W t ov = Inr ws" "i < length ws"
  shows "ws ! i = tile_window H W t ov (int (i div length (origins W (t - ov))) * (t - ov))
                                      (int (i mod length (origins W (t - ov))) * (t - ov))"
proof -
  let ?n = "length (origins W (t - ov))"
  have "ws = concat (map (\<lambda>y. map (tile_window H W t ov y) (origins W (t - ov))) (origins H (t - ov)))"
    using assms(1,2) by (simp add: tile_grid_concat)
  then have len: "length ws = length (origins H (t - ov)) * ?n"
    by (simp only: length_concat_rows)
  have n: "0 < ?n" using assms(3) len by (cases "?n") auto
  have r: "i div ?n < length (origins H (t - ov))"
    using assms(3) len by (simp add: less_mult_imp_div_less)
  have c: "i mod ?n < ?n" using n by simp
  have "ws ! (i div ?n * ?n + i mod ?n) =
          tile_window H W t ov (origins H (t - ov) ! (i div ?n)) (origins W (t - ov) ! (i mod ?n))"
    by (rule grid_nth [OF assms(1,2) r c])
  then show ?thesis using r c by (simp add: origins_nth)
qed

lemma stride_apart: "0 < s \<Longrightarrow> i < j \<Longrightarrow> int i * s + s \<le> int j * s"
proof -
  assume s: "0 < s" and "i < j"
  then have "int i + 1 \<le> int j" by simp
  then have "(int i + 1) * s \<le> int j * s" using s by (intro mult_right_mono) simp_all
  then show ?thesis by (simp add: algebra_simps)
qed

lemma tile_window_no_overlap:
  "0 \<le> y \<Longrightarrow> 0 \<le> x \<Longrightarrow> tile_window H W t 0 y x = (y, x, min t (W - x), min t (H - y))"
  by (simp add: tile_window_def)

lemma rects_apart:
  assumes "0 \<le> y" "0 \<le> x" "0 \<le> y'" "0 \<le> x'"
    and "y + t \<le> y' \<or> y' + t \<le> y \<or> x + t \<le> x' \<or> x' + t \<le> x"
  shows "rect (tile_window H W t 0 y x) \<inter> rect (tile_window H W t 0 y' x') = {}"
  using assms by (auto simp: tile_window_no_overlap rect_def rows_def cols_def)

lemma div_mod_differ:
  fixes i j n :: nat
  assumes "i \<noteq> j"
  shows "i div n < j div n \<or> j div n < i div n \<or> i mod n < j mod n \<or> j mod n < i mod n"
proof (rule ccontr)
  assume "\<not> ?thesis"
  then have "i div n = j div n" "i mod n = j mod n" by simp_all
  then have "i = j" by (metis div_mult_mod_eq)
  with assms show False by simp
qed

lemma no_overlap_disjoint:
  assumes "0 < t" "tile_grid H W t 0 = Inr ws" "i < length ws" "j < length ws" "i \<noteq> j"
  shows "rect (ws ! i) \<inter> rect (ws ! j) = {}"
proof -
  let ?n = "length (origins W t)"
  note e = grid_nth_flat [OF _ assms(2), simplified, OF assms(1)]
  have "int (i div ?n) * t + t \<le> int (j div ?n) * t \<or> int (j div ?n) * t + t \<le> int (i div ?n) * t
      \<or> int (i mod ?n) * t + t \<le> int (j mod ?n) * t \<or> int (j mod ?n) * t + t \<le> int (i mod ?n) * t"
    using div_mod_differ [OF assms(5), of ?n] stride_apart [OF assms(1)] by blast
  moreover have "0 \<le> int k * t" for k using assms(1) by simp
  ultimately show ?thesis
    unfolding e [OF assms(3)] e [OF assms(4)] by (intro rects_apart) simp_all
qed

lemma rects_cover:
  assumes "0 < H" "0 < W" "0 < t" "0 \<le> ov" "ov < t" "tile_grid H W t ov = Inr ws"
  shows "(\<Union>win \<in> set ws. rect win) = {0 ..< H} \<times> {0 ..< W}"
proof -
  have wsd: "ws = concat (map (\<lambda>y. map (tile_window H W t ov y) (origins W (t - ov))) (origins H (t - ov)))"
    using assms(5,6) by (simp add: tile_grid_concat)
  have s: "0 < t - ov" using assms by simp
  show ?thesis
  proof (intro equalityI subsetI)
    fix p assume "p \<in> (\<Union>win \<in> set ws. rect win)"
    then obtain win where win: "win \<in> set ws" "p \<in> rect win" by blast
    obtain y_off x_off w h where e: "win = (y_off, x_off, w, h)" by (cases win) auto
    have "0 < w \<and> 0 < h \<and> 0 \<le> y_off \<and> 0 \<le> x_off \<and> y_off + h \<le> H \<and> x_off + w \<le> W"
    proof -
      from win(1) e obtain y x where yx: "y \<in> set (origins H (t - ov))" "x \<in> set (origins W (t - ov))"
        and tw: "tile_window H W t ov y x = (y_off, x_off, w, h)"
        using set_tile_grid [OF assms(5,6)] by auto
      from yx s have "0 \<le> y" "y < H" "0 \<le> x" "x < W" by (simp_all add: origins_mem)
      then show ?thesis using tile_window_valid [OF assms(3,4) _ _ _ _ tw] by simp
    qed
    then show "p \<in> {0 ..< H} \<times> {0 ..< W}" using win(2) e
      by (auto simp: rect_def rows_def cols_def)
  next
    fix p assume p: "p \<in> {0 ..< H} \<times> {0 ..< W}"
    obtain r c where e: "p = (r, c)" by (cases p) auto
    with p have rc: "0 \<le> r" "r < H" "0 \<le> c" "c < W" by simp_all
    let ?y = "r div (t - ov) * (t - ov)" and ?x = "c div (t - ov) * (t - ov)"
    note oy = origin_below [OF s rc(1,2)] and ox = origin_below [OF s rc(3,4)]
    have "0 \<le> ?y" "0 \<le> ?x" using oy(1) ox(1) s by (simp_all add: origins_mem)
    then have "(r, c) \<in> rect (tile_window H W t ov ?y ?x)"
      using assms oy ox rc by (intro tile_window_covers) simp_all
    moreover have "tile_window H W t ov ?y ?x \<in> set ws"
      using oy(1) ox(1) by (auto simp: wsd)
    ultimately show "p \<in> (\<Union>win \<in> set ws. rect win)" using e by blast
  qed
qed

section \<open>Facts about the formatted offsets\<close>





lemma str_nat_nonempty: "str_nat n \<noteq> []"
  by (subst str_nat.simps) simp










section \<open>Facts about the run and the file names\<close>

lemma save_tiles_ok:
  "(\<forall>win \<in> set ws. tile_ok wd win) \<Longrightarrow>
   save_tiles wd d ws acc = (acc @ map (\<lambda>win. d @ [tile_name win]) ws, None)"
  by (induction ws arbitrary: acc) simp_all



lemma run_ok:
  assumes "input_exists wd" "mkdir_ok wd" "mkdtemp_ok wd" "raster wd = Some (H, W)"
    and "tile_grid H W t ov = Inr ws" "\<forall>win \<in> set ws. tile_ok wd win"
  shows "tile_raster_with_overlap wd out t ov =
           (map (\<lambda>win. out @ [''tiles'', tile_name win]) ws, Success (length ws))"
  using assms
  by (simp add: tile_raster_with_overlap_def validate_and_prepare_paths_def save_tiles_ok)



lemma run_zero_stride: "\<exists>e. tile_raster_with_overlap wd out t t = ([], Exit1 e)"
  by (cases "raster wd")
     (auto simp: tile_raster_with_overlap_def validate_and_prepare_paths_def tile_grid_def
        py_range_zero_step)

lemma tile_grid_neg_stride: "t < ov \<Longrightarrow> 0 \<le> H \<Longrightarrow> tile_grid H W t ov = Inr []"
  by (simp add: tile_grid_def py_range_neg_step)

lemma healthy_world_simps:
  "input_exists (healthy_world H W)" "mkdir_ok (healthy_world H W)" "mkdtemp_ok (healthy_world H W)"
  "raster (healthy_world H W) = Some (H, W)" "tile_ok (healthy_world H W) win"
  by (simp_all add: healthy_world_def)






















section \<open>Worked examples\<close>

text \<open>
  C8: a raster 2500 wide and 1 high with \<open>tile_size = 1000\<close> and \<open>overlap = 100\<close> gives
  exactly the three windows \<open>(0, 0, 1000, 1)\<close>, \<open>(0, 800, 1100, 1)\<close> and
  \<open>(0, 1700, 800, 1)\<close>, in this order.
\<close>

theorem grid_example_2500x1:
  "tile_grid 1 2500 1000 100 = Inr [(0, 0, 1000, 1), (0, 800, 1100, 1), (0, 1700, 800, 1)]"
  by code_simp

text \<open>
  C3, as the code has it: a 4000 by 4000 raster with \<open>tile_size = 2000\<close> and
  \<open>overlap = 20\<close> has stride 1980, hence three origins per axis and nine windows, not
  four; two windows at different offsets along an axis share 40 pixels there, not 20.
\<close>

theorem grid_4000x4000_counterexample:
  "length (projr (tile_grid 4000 4000 2000 20)) = 9
   \<and> length (projr (tile_grid 4000 4000 2000 20)) \<noteq> 4
   \<and> \<not> card (cols (projr (tile_grid 4000 4000 2000 20) ! 0)
                \<inter> cols (projr (tile_grid 4000 4000 2000 20) ! 1)) \<le> 20"
  by (simp add: grid_4000 cols_def card_ivl_inter del: Int_atLeastLessThan)

text \<open>
  C3, amended: the grid is the 3 by 3 grid of nine windows below, and any two of its
  windows with different row offsets share at most 40 pixel rows, any two with different
  column offsets at most 40 pixel columns.
\<close>

theorem grid_example_4000x4000:
  "py_range 0 4000 (2000 - 20) = Inr [0, 1980, 3960]
   \<and> tile_grid 4000 4000 2000 20 =
       Inr [(0, 0, 2000, 2000), (0, 1960, 2020, 2000), (0, 3940, 60, 2000),
            (1960, 0, 2000, 2020), (1960, 1960, 2020, 2020), (1960, 3940, 60, 2020),
            (3940, 0, 2000, 60), (3940, 1960, 2020, 60), (3940, 3940, 60, 60)]
   \<and> length (projr (tile_grid 4000 4000 2000 20)) = 9
   \<and> (\<forall>a \<in> set (projr (tile_grid 4000 4000 2000 20)).
        \<forall>b \<in> set (projr (tile_grid 4000 4000 2000 20)).
          (fst a \<noteq> fst b \<longrightarrow> card (rows a \<inter> rows b) \<le> 40)
        \<and> (fst (snd a) \<noteq> fst (snd b) \<longrightarrow> card (cols a \<inter> cols b) \<le> 40))"
  by (simp add: range_4000 grid_4000 rows_def cols_def card_ivl_inter del: Int_atLeastLessThan)

theorem grid_example_4000x4000_witness:
  "(0, 0, 2000, 2000) \<in> set (projr (tile_grid 4000 4000 2000 20))
   \<and> (1960, 1960, 2020, 2020) \<in> set (projr (tile_grid 4000 4000 2000 20))
   \<and> (0::int) \<noteq> 1960
   \<and> card (rows (0, 0, 2000, 2000) \<inter> rows (1960, 1960, 2020, 2020)) \<le> 40
   \<and> card (cols (0, 0, 2000, 2000) \<inter> cols (1960, 1960, 2020, 2020)) \<le> 40"
proof -
  have m: "(0, 0, 2000, 2000) \<in> set (projr (tile_grid 4000 4000 2000 20))"
    "(1960, 1960, 2020, 2020) \<in> set (projr (tile_grid 4000 4000 2000 20))"
    by (simp_all add: grid_4000)
  from grid_example_4000x4000 have
    "\<forall>a \<in> set (projr (tile_grid 4000 4000 2000 20)).
        \<forall>b \<in> set (projr (tile_grid 4000 4000 2000 20)).
          (fst a \<noteq> fst b \<longrightarrow> card (rows a \<inter> rows b) \<le> 40)
        \<and> (fst (snd a) \<noteq> fst (snd b) \<longrightarrow> card (cols a \<inter> cols b) \<le> 40)"
    by (elim conjE)
  from this [rule_format, OF m] m show ?thesis by simp
qed

section \<open>Validity of every window\<close>

text \<open>
  C7: for a valid configuration every emitted window has positive width and height,
  non-negative offsets, and lies inside the raster.
\<close>

theorem windows_valid:
  assumes "0 < H" "0 < W" "0 < t" "0 \<le> ov" "ov < t"
    and "tile_grid H W t ov = Inr ws" and "(y_off, x_off, w, h) \<in> set ws"
  shows "0 < w \<and> 0 < h \<and> 0 \<le> y_off \<and> 0 \<le> x_off \<and> y_off + h \<le> H \<and> x_off + w \<le> W"
proof -
  from assms obtain y x where yx: "y \<in> set (origins H (t - ov))" "x \<in> set (origins W (t - ov))"
    and tw: "tile_window H W t ov y x = (y_off, x_off, w, h)"
    by (auto simp: set_tile_grid)
  from yx assms(5) have "0 \<le> y" "y < H" "0 \<le> x" "x < W" by (simp_all add: origins_mem)
  then show ?thesis using tile_window_valid [OF assms(3,4) _ _ _ _ tw] by simp
qed

theorem windows_valid_witness:
  "(0::int) < 3 \<and> (0::int) < 5 \<and> (0::int) \<le> 1 \<and> (1::int) < 3
   \<and> tile_grid 3 5 3 1 =
       Inr [(0, 0, 3, 3), (0, 1, 4, 3), (0, 3, 2, 3), (1, 0, 3, 2), (1, 1, 4, 2), (1, 3, 2, 2)]
   \<and> (1, 3, 2, 2) \<in> set ([(0, 0, 3, 3), (0, 1, 4, 3), (0, 3, 2, 3), (1, 0, 3, 2), (1, 1, 4, 2), (1, 3, 2, 2)] :: window list)
   \<and> (0::int) < 2 \<and> (0::int) \<le> 1 \<and> (0::int) \<le> 3 \<and> (1::int) + 2 \<le> 3 \<and> (3::int) + 2 \<le> 5"
  using windows_valid [of 3 5 3 1 _ 1 3 2 2, OF _ _ _ _ _ small_grid] small_grid by simp

section \<open>Size of the grid\<close>

text \<open>
  C5: for a valid configuration the number of emitted windows is
  \<open>ceil(height / stride) * ceil(width / stride)\<close> with \<open>stride = tile_size - overlap\<close>.
\<close>

theorem grid_count:
  assumes "0 < H" "0 < W" "0 < t" "0 \<le> ov" "ov < t"
  shows "\<exists>ws. tile_grid H W t ov = Inr ws \<and>
           int (length ws) = \<lceil>real_of_int H / real_of_int (t - ov)\<rceil> * \<lceil>real_of_int W / real_of_int (t - ov)\<rceil>"
proof -
  have s: "0 < t - ov" using assms by simp
  have "0 \<le> (H - 1) div (t - ov)" "0 \<le> (W - 1) div (t - ov)"
    using assms by (simp_all add: pos_imp_zdiv_nonneg_iff)
  then show ?thesis using assms s
    by (simp add: tile_grid_concat length_concat_rows length_origins ceil_div [symmetric] del: of_int_diff)
qed

theorem grid_count_witness:
  "(0::int) < 3 \<and> (0::int) < 5 \<and> (0::int) \<le> 1 \<and> (1::int) < 3
   \<and> int (length (projr (tile_grid 3 5 3 1))) = \<lceil>3 / (2::real)\<rceil> * \<lceil>5 / (2::real)\<rceil>"
  using grid_count [of 3 5 3 1] by auto

section \<open>Coverage\<close>

text \<open>
  C6: for a valid configuration the union of the rectangles of all emitted windows is
  the whole raster extent: every pixel is covered and no window leaves the raster.
\<close>

theorem coverage:
  assumes "0 < H" "0 < W" "0 < t" "0 \<le> ov" "ov < t"
  shows "\<exists>ws. tile_grid H W t ov = Inr ws \<and> (\<Union>win \<in> set ws. rect win) = {0 ..< H} \<times> {0 ..< W}"
proof -
  from assms obtain ws where g: "tile_grid H W t ov = Inr ws" by (simp add: tile_grid_concat)
  from rects_cover [OF assms g] g show ?thesis by blast
qed

theorem coverage_witness:
  "(0::int) < 3 \<and> (0::int) < 5 \<and> (0::int) \<le> 1 \<and> (1::int) < 3
   \<and> (\<Union>win \<in> set (projr (tile_grid 3 5 3 1)). rect win) = {0 ..< 3} \<times> {0 ..< 5}"
proof -
  have "\<exists>ws. tile_grid 3 5 3 1 = Inr ws \<and> (\<Union>win \<in> set ws. rect win) = {0 ..< 3} \<times> {0 ..< 5}"
    by (rule coverage) simp_all
  then obtain ws
    where "tile_grid 3 5 3 1 = Inr ws" "(\<Union>win \<in> set ws. rect win) = {0 ..< 3} \<times> {0 ..< 5}"
    by blast
  then show ?thesis by simp
qed

section \<open>Window offsets\<close>

text \<open>
  C4, as the code has it: the back-extended offset is clamped at zero. With
  \<open>tile_size = 10\<close> and \<open>overlap = 6\<close> the origin \<open>x = 4\<close> gets \<open>x_off = 0\<close>, not
  \<open>4 - 6\<close>.
\<close>

theorem window_offsets_counterexample:
  "(0::int) < 1 \<and> (0::int) < 10 \<and> (0::int) \<le> 6 \<and> (6::int) < 10
   \<and> py_range 0 10 (10 - 6) = Inr [0, 4, 8]
   \<and> tile_grid 1 10 10 6 = Inr [(0, 0, 10, 1), (0, 0, 10, 1), (0, 2, 8, 1)]
   \<and> fst (snd (projr (tile_grid 1 10 10 6) ! 1))
        \<noteq> (if 0 < projr (py_range 0 10 (10 - 6)) ! 1
            then projr (py_range 0 10 (10 - 6)) ! 1 - 6 else 0)"
proof -
  have r: "py_range 0 10 4 = Inr [0, 4, 8]" by code_simp
  have g: "tile_grid 1 10 10 6 = Inr [(0, 0, 10, 1), (0, 0, 10, 1), (0, 2, 8, 1)]" by code_simp
  show ?thesis by (simp add: r g)
qed

text \<open>
  C4, amended: for a valid configuration the window emitted for the origin \<open>(y, x)\<close>
  (entry \<open>i * length xs + j\<close> of the grid for the \<open>i\<close>-th row origin and \<open>j\<close>-th column
  origin) has \<open>y_off = max(0, y - overlap) if y > 0 else 0\<close> and likewise \<open>x_off\<close>; when
  \<open>2 * overlap \<le> tile_size\<close> the clamp never acts and the offsets are exactly
  \<open>y - overlap if y > 0 else 0\<close> and \<open>x - overlap if x > 0 else 0\<close>.
\<close>

theorem window_offsets:
  assumes "0 < H" "0 < W" "0 < t" "0 \<le> ov" "ov < t"
    and "py_range 0 H (t - ov) = Inr ys" "py_range 0 W (t - ov) = Inr xs"
    and "tile_grid H W t ov = Inr ws"
    and "i < length ys" "j < length xs"
    and "ws ! (i * length xs + j) = (y_off, x_off, w, h)"
  shows "y_off = (if 0 < ys ! i then max 0 (ys ! i - ov) else 0)
       \<and> x_off = (if 0 < xs ! j then max 0 (xs ! j - ov) else 0)
       \<and> (2 * ov \<le> t \<longrightarrow> y_off = (if 0 < ys ! i then ys ! i - ov else 0)
                        \<and> x_off = (if 0 < xs ! j then xs ! j - ov else 0))"
proof -
  have s: "0 < t - ov" using assms by simp
  have ys: "ys = origins H (t - ov)" and xs: "xs = origins W (t - ov)"
    using assms(6,7) s by (simp_all add: py_range_origins)
  have tw: "tile_window H W t ov (ys ! i) (xs ! j) = (y_off, x_off, w, h)"
    using grid_nth [OF assms(5) assms(8)] assms(9,10,11) by (simp add: ys xs)
  have "ys ! i = 0 \<or> t - ov \<le> ys ! i" "xs ! j = 0 \<or> t - ov \<le> xs ! j"
    using assms(9,10) origin_zero_or_stride [OF s origins_nth_mem] by (simp_all add: ys xs)
  then show ?thesis using tw by (auto simp: tile_window_def Let_def)
qed

theorem window_offsets_witness:
  "(0::int) < 3 \<and> (0::int) < 5 \<and> (0::int) \<le> 1 \<and> (1::int) < 3
   \<and> py_range 0 3 (3 - 1) = Inr [0, 2] \<and> py_range 0 5 (3 - 1) = Inr [0, 2, 4]
   \<and> tile_grid 3 5 3 1 =
       Inr [(0, 0, 3, 3), (0, 1, 4, 3), (0, 3, 2, 3), (1, 0, 3, 2), (1, 1, 4, 2), (1, 3, 2, 2)]
   \<and> ([(0, 0, 3, 3), (0, 1, 4, 3), (0, 3, 2, 3), (1, 0, 3, 2), (1, 1, 4, 2), (1, 3, 2, 2)] :: window list)
         ! (1 * 3 + 2) = (1, 3, 2, 2)
   \<and> 2 * (1::int) \<le> 3 \<and> (1::int) = 2 - 1 \<and> (3::int) = 4 - 1"
proof -
  have r: "py_range 0 3 (3 - 1) = Inr [0, 2]" "py_range 0 5 (3 - 1) = Inr [0, 2, 4]"
    by code_simp+
  from window_offsets [of 3 5 3 1 "[0, 2]" "[0, 2, 4]" _ 1 2 1 3 2 2, OF _ _ _ _ _ r small_grid]
  show ?thesis using r small_grid by simp
qed

section \<open>Overlap of adjacent windows\<close>

text \<open>
  C1, as the code has it: in the grid of the 2500 by 1 raster with \<open>tile_size = 1000\<close> and
  \<open>overlap = 100\<close> the first two windows share 200 pixel columns, more than \<open>overlap\<close>.
\<close>

theorem adjacent_overlap_counterexample:
  "tile_grid 1 2500 1000 100 = Inr [(0, 0, 1000, 1), (0, 800, 1100, 1), (0, 1700, 800, 1)]
   \<and> card (cols (0, 0, 1000, 1) \<inter> cols (0, 800, 1100, 1)) = 200
   \<and> \<not> card (cols (projr (tile_grid 1 2500 1000 100) ! 0)
                \<inter> cols (projr (tile_grid 1 2500 1000 100) ! 1)) \<le> 100"
proof -
  have g: "tile_grid 1 2500 1000 100 = Inr [(0, 0, 1000, 1), (0, 800, 1100, 1), (0, 1700, 800, 1)]"
    by code_simp
  show ?thesis by (simp add: g cols_def card_ivl_inter del: Int_atLeastLessThan)
qed

text \<open>
  C1, amended: for a valid configuration two windows at consecutive nominal origins along
  an axis share at most \<open>2 * overlap + max(0, 2 * overlap - tile_size)\<close> pixels along that
  axis; this is \<open>2 * overlap\<close> whenever \<open>2 * overlap \<le> tile_size\<close>.
\<close>

theorem adjacent_overlap_bound:
  assumes "0 < H" "0 < W" "0 < t" "0 \<le> ov" "ov < t"
    and "py_range 0 H (t - ov) = Inr ys" "py_range 0 W (t - ov) = Inr xs"
    and "tile_grid H W t ov = Inr ws"
  shows "(i < length ys \<and> j + 1 < length xs \<longrightarrow>
            int (card (cols (ws ! (i * length xs + j)) \<inter> cols (ws ! (i * length xs + (j + 1)))))
              \<le> 2 * ov + max 0 (2 * ov - t))
       \<and> (i + 1 < length ys \<and> j < length xs \<longrightarrow>
            int (card (rows (ws ! (i * length xs + j)) \<inter> rows (ws ! ((i + 1) * length xs + j))))
              \<le> 2 * ov + max 0 (2 * ov - t))"
proof -
  have s: "0 < t - ov" using assms by simp
  have ys: "ys = origins H (t - ov)" and xs: "xs = origins W (t - ov)"
    using assms(6,7) s by (simp_all add: py_range_origins)
  note nth = grid_nth [OF assms(5) assms(8), folded ys xs]
  have horiz: "int (card (cols (ws ! (i * length xs + j)) \<inter> cols (ws ! (i * length xs + (j + 1)))))
              \<le> 2 * ov + max 0 (2 * ov - t)" if "i < length ys" "j + 1 < length xs"
  proof -
    have j: "j < length xs" using that by simp
    have x: "xs ! j = 0 \<or> t - ov \<le> xs ! j"
      using j origin_zero_or_stride [OF s origins_nth_mem] by (simp add: xs)
    have nx: "xs ! (j + 1) = xs ! j + (t - ov)" using that(2) origins_succ by (simp add: xs)
    show ?thesis
      unfolding nth [OF that(1) j] nth [OF that] nx
      unfolding tile_window_def Let_def cols_def prod.case card_common
      by (rule overlap_arith [OF assms(3,4,5) x])
  qed
  have vert: "int (card (rows (ws ! (i * length xs + j)) \<inter> rows (ws ! ((i + 1) * length xs + j))))
              \<le> 2 * ov + max 0 (2 * ov - t)" if "i + 1 < length ys" "j < length xs"
  proof -
    have i: "i < length ys" using that by simp
    have y: "ys ! i = 0 \<or> t - ov \<le> ys ! i"
      using i origin_zero_or_stride [OF s origins_nth_mem] by (simp add: ys)
    have ny: "ys ! (i + 1) = ys ! i + (t - ov)" using that(1) origins_succ by (simp add: ys)
    show ?thesis
      unfolding nth [OF i that(2)] nth [OF that] ny
      unfolding tile_window_def Let_def rows_def prod.case card_common
      by (rule overlap_arith [OF assms(3,4,5) y])
  qed
  from horiz vert show ?thesis by blast
qed

theorem adjacent_overlap_bound_witness:
  "(0::int) < 3 \<and> (0::int) < 5 \<and> (0::int) \<le> 1 \<and> (1::int) < 3
   \<and> py_range 0 3 (3 - 1) = Inr [0, 2] \<and> py_range 0 5 (3 - 1) = Inr [0, 2, 4]
   \<and> tile_grid 3 5 3 1 =
       Inr [(0, 0, 3, 3), (0, 1, 4, 3), (0, 3, 2, 3), (1, 0, 3, 2), (1, 1, 4, 2), (1, 3, 2, 2)]
   \<and> int (card (cols (0, 0, 3, 3) \<inter> cols (0, 1, 4, 3))) \<le> 2 * 1 + max 0 (2 * 1 - 3)
   \<and> int (card (rows (0, 0, 3, 3) \<inter> rows (1, 0, 3, 2))) \<le> 2 * 1 + max 0 (2 * 1 - 3)"
proof -
  have r: "py_range 0 3 (3 - 1) = Inr [0, 2]" "py_range 0 5 (3 - 1) = Inr [0, 2, 4]"
    by code_simp+
  from adjacent_overlap_bound [of 3 5 3 1 "[0, 2]" "[0, 2, 4]" _ 0 0, OF _ _ _ _ _ r small_grid]
  show ?thesis using r small_grid by simp
qed

section \<open>Configurations at the boundary\<close>

text \<open>
  C10: when \<open>overlap > tile_size\<close> the stride is negative and both ranges are empty for
  a raster of positive size. With the paths, the scratch directory and the raster
  available, the run emits no window, writes no tile file and ends with the success
  report of zero tiles.
\<close>

theorem negative_stride_run:
  assumes "tile_size < overlap" "0 < height" "0 < width"
    and "input_exists wd" "mkdir_ok wd" "mkdtemp_ok wd" "raster wd = Some (height, width)"
  shows "tile_grid height width tile_size overlap = Inr []
       \<and> tile_raster_with_overlap wd output_dir tile_size overlap = ([], Success 0)"
proof -
  have g: "tile_grid height width tile_size overlap = Inr []"
    using assms(1,2) by (simp add: tile_grid_neg_stride)
  from run_ok [OF assms(4-7) g] g show ?thesis by simp
qed

theorem negative_stride_run_witness:
  "(10::int) < 11 \<and> (0::int) < 5
   \<and> input_exists (healthy_world 5 5) \<and> mkdir_ok (healthy_world 5 5) \<and> mkdtemp_ok (healthy_world 5 5)
   \<and> raster (healthy_world 5 5) = Some (5, 5)
   \<and> tile_grid 5 5 10 11 = Inr []
   \<and> tile_raster_with_overlap (healthy_world 5 5) [''out''] 10 11 = ([], Success 0)"
  using negative_stride_run [of 10 11 5 5 "healthy_world 5 5" "[''out'']"]
  by (simp add: healthy_world_simps)

text \<open>
  C2, as the code has it: \<open>overlap = 1001 > tile_size = 1000\<close> on the 2500 by 1 raster is
  not rejected; the run succeeds with an empty grid.
\<close>

theorem boundary_configurations_counterexample:
  "tile_grid 1 2500 1000 1001 = Inr []
   \<and> tile_raster_with_overlap (healthy_world 1 2500) [''out''] 1000 1001 = ([], Success 0)
   \<and> snd (tile_raster_with_overlap (healthy_world 1 2500) [''out''] 1000 1001) \<noteq> Exit1 ValueError"
proof -
  have g: "tile_grid 1 2500 1000 1001 = Inr []" by (simp add: tile_grid_neg_stride)
  have "tile_raster_with_overlap (healthy_world 1 2500) [''out''] 1000 1001 = ([], Success 0)"
    using run_ok [OF healthy_world_simps(1-4) g, of "[''out'']"] by simp
  with g show ?thesis by simp
qed

text \<open>
  C2, amended: with \<open>overlap = tile_size\<close> every run fails before any tile is written,
  and when the paths, the scratch directory and the raster are available it fails with
  the \<open>ValueError\<close> of the zero range step; with
  \<open>overlap = 0\<close>, a positive tile size and a raster of positive size the configuration
  is accepted, the run succeeds when the outside world does, and the windows are pairwise
  disjoint and cover the raster: a partition.
\<close>

theorem boundary_configurations:
  "(\<exists>e. tile_raster_with_overlap wd output_dir tile_size tile_size = ([], Exit1 e))
   \<and> (input_exists wd \<and> mkdir_ok wd \<and> mkdtemp_ok wd \<and> raster wd \<noteq> None \<longrightarrow>
        tile_raster_with_overlap wd output_dir tile_size tile_size = ([], Exit1 ValueError))
   \<and> (0 < H \<and> 0 < W \<and> 0 < t \<longrightarrow>
        (\<exists>ws. tile_grid H W t 0 = Inr ws
           \<and> tile_raster_with_overlap (healthy_world H W) output_dir t 0
               = (map (\<lambda>win. output_dir @ [''tiles'', tile_name win]) ws, Success (length ws))
           \<and> (\<forall>i < length ws. \<forall>j < length ws. i \<noteq> j \<longrightarrow> rect (ws ! i) \<inter> rect (ws ! j) = {})
           \<and> (\<Union>win \<in> set ws. rect win) = {0 ..< H} \<times> {0 ..< W}))"
proof (intro conjI impI)
  show "\<exists>e. tile_raster_with_overlap wd output_dir tile_size tile_size = ([], Exit1 e)"
    by (rule run_zero_stride)
next
  assume "input_exists wd \<and> mkdir_ok wd \<and> mkdtemp_ok wd \<and> raster wd \<noteq> None"
  then show "tile_raster_with_overlap wd output_dir tile_size tile_size = ([], Exit1 ValueError)"
    by (auto simp: tile_raster_with_overlap_def validate_and_prepare_paths_def tile_grid_def
          py_range_zero_step)
next
  assume a: "0 < H \<and> 0 < W \<and> 0 < t"
  then obtain ws where g: "tile_grid H W t 0 = Inr ws" by (simp add: tile_grid_concat)
  have "tile_raster_with_overlap (healthy_world H W) output_dir t 0
          = (map (\<lambda>win. output_dir @ [''tiles'', tile_name win]) ws, Success (length ws))"
    by (rule run_ok [OF healthy_world_simps(1-4) g]) (simp add: healthy_world_simps)
  moreover have "\<forall>i < length ws. \<forall>j < length ws. i \<noteq> j \<longrightarrow> rect (ws ! i) \<inter> rect (ws ! j) = {}"
  proof (intro allI impI)
    fix i j assume "i < length ws" "j < length ws" "i \<noteq> j"
    with a g show "rect (ws ! i) \<inter> rect (ws ! j) = {}"
      by (intro no_overlap_disjoint [where H = H and W = W and t = t]) simp_all
  qed
  moreover have "(\<Union>win \<in> set ws. rect win) = {0 ..< H} \<times> {0 ..< W}"
    using a g by (intro rects_cover [where t = t and ov = 0]) simp_all
  ultimately show "\<exists>ws. tile_grid H W t 0 = Inr ws
           \<and> tile_raster_with_overlap (healthy_world H W) output_dir t 0
               = (map (\<lambda>win. output_dir @ [''tiles'', tile_name win]) ws, Success (length ws))
           \<and> (\<forall>i < length ws. \<forall>j < length ws. i \<noteq> j \<longrightarrow> rect (ws ! i) \<inter> rect (ws ! j) = {})
           \<and> (\<Union>win \<in> set ws. rect win) = {0 ..< H} \<times> {0 ..< W}"
    using g by blast
qed

theorem boundary_configurations_witness:
  "fst (tile_raster_with_overlap (healthy_world 1 3) [''out''] 2 2) = []
   \<and> snd (tile_raster_with_overlap (healthy_world 1 3) [''out''] 2 2) = Exit1 ValueError
   \<and> (0::int) < 1 \<and> (0::int) < 3 \<and> (0::int) < 2
   \<and> tile_grid 1 3 2 0 = Inr [(0, 0, 2, 1), (0, 2, 1, 1)]
   \<and> snd (tile_raster_with_overlap (healthy_world 1 3) [''out''] 2 0) = Success 2
   \<and> rect (0, 0, 2, 1) \<inter> rect (0, 2, 1, 1) = {}
   \<and> rect (0, 0, 2, 1) \<union> rect (0, 2, 1, 1) = {0 ..< 1} \<times> {0 ..< 3}"
proof -
  have g: "tile_grid 1 3 2 0 = Inr [(0, 0, 2, 1), (0, 2, 1, 1)]" by code_simp
  from boundary_configurations [of "healthy_world 1 3" "[''out'']" 2 1 3 2]
  obtain ws where e: "tile_raster_with_overlap (healthy_world 1 3) [''out''] 2 2 = ([], Exit1 ValueError)"
    and ws: "tile_grid 1 3 2 0 = Inr ws"
      "tile_raster_with_overlap (healthy_world 1 3) [''out''] 2 0
         = (map (\<lambda>win. [''out''] @ [''tiles'', tile_name win]) ws, Success (length ws))"
      "\<forall>i < length ws. \<forall>j < length ws. i \<noteq> j \<longrightarrow> rect (ws ! i) \<inter> rect (ws ! j) = {}"
      "(\<Union>win \<in> set ws. rect win) = {0 ..< 1} \<times> {0 ..< 3}"
    by (auto simp: healthy_world_simps)
  from ws(1) g have w: "ws = [(0, 0, 2, 1), (0, 2, 1, 1)]" by simp
  from ws(3) [rule_format, of 0 1] have "rect (0, 0, 2, 1) \<inter> rect (0, 2, 1, 1) = {}"
    by (simp add: w)
  moreover from ws(4) have "rect (0, 0, 2, 1) \<union> rect (0, 2, 1, 1) = {0 ..< 1} \<times> {0 ..< 3}"
    by (simp add: w)
  ultimately show ?thesis using e g ws(2) by (simp add: w)
qed

section \<open>Names and order of the tile files\<close>




end
